theory Spec2Isabelle
  imports Complex_Main "HOL-Library.Word"
begin

section \<open>Values and library primitives used by the Corelight processor\<close>

text \<open>
  The processor decodes a payload with \<^verbatim>\<open>json.Unmarshal\<close> into a
  \<^verbatim>\<open>map[string]interface{}\<close>. The dynamic values held by that map are
  \<^verbatim>\<open>nil\<close>, \<^verbatim>\<open>bool\<close>, \<^verbatim>\<open>float64\<close>, \<^verbatim>\<open>string\<close>,
  \<^verbatim>\<open>[]interface{}\<close> and \<^verbatim>\<open>map[string]interface{}\<close>. A finite
  \<^verbatim>\<open>float64\<close> is a rational number; it is represented by its exact value.
  Byte slices and strings are both \<open>string\<close> (lists of bytes).
\<close>

datatype jvalue =
    JNull
  | JBool bool
  | JNum rat
  | JStr string
  | JArr "jvalue list"
  | JObj "(string \<times> jvalue) list"

type_synonym jobject = "(string \<times> jvalue) list"

text \<open>
  A \<^verbatim>\<open>time.Time\<close> as far as the processor reads it: seconds since the Unix
  epoch and the nanoseconds within that second.
\<close>

record time =
  unixSec :: int
  nsec :: int

datatype error = Error string

text \<open>
  The collaborators that live outside the processor's source: the JSON decoder,
  \<^verbatim>\<open>time.Parse\<close> with the layout \<^verbatim>\<open>time.RFC3339Nano\<close>, the \<^verbatim>\<open>%v\<close>
  rendering of arrays and objects, the implementation-dependent result of converting
  to \<^verbatim>\<open>int\<close> a \<^verbatim>\<open>float64\<close> outside the range of \<^verbatim>\<open>int64\<close>, and
  \<^verbatim>\<open>entry.FromStandard\<close>. \<open>None\<close> stands for a returned error.
\<close>

record 'ts golib =
  json_Unmarshal :: "string \<Rightarrow> jobject option"
  time_Parse :: "string \<Rightarrow> time option"
  fmt_v_composite :: "jvalue \<Rightarrow> string"
  int_out_of_range :: "rat \<Rightarrow> int"
  FromStandard :: "time \<Rightarrow> 'ts"

subsection \<open>Decimal rendering\<close>

definition digit :: "int \<Rightarrow> char" where
  "digit n = ''0123456789'' ! nat (n mod 10)"

text \<open>The decimal digits of a natural number, held in an \<open>int\<close>.\<close>

function dec :: "int \<Rightarrow> string" where
  "dec n = (if n < 10 then [digit n] else dec (n div 10) @ [digit (n mod 10)])"
  by pat_completeness auto
termination
  by (relation "measure nat") auto

declare dec.simps [simp del]

definition is_digit :: "char \<Rightarrow> bool" where
  "is_digit c = (c \<in> set ''0123456789'')"

text \<open>\<^verbatim>\<open>%d\<close> of an \<^verbatim>\<open>int\<close>.\<close>

definition fmt_d :: "int \<Rightarrow> string" where
  "fmt_d i = (if i < 0 then CHR ''-'' # dec (- i) else dec i)"

text \<open>Rounding to the nearest integer, ties to the even one.\<close>

definition round_even :: "rat \<Rightarrow> int" where
  "round_even x =
     (let f = \<lfloor>x\<rfloor>; r = x - of_int f
      in if r < 1 / 2 then f else if 1 / 2 < r then f + 1
         else if even f then f else f + 1)"

definition padl :: "nat \<Rightarrow> string \<Rightarrow> string" where
  "padl p s = replicate (p - length s) CHR ''0'' @ s"

text \<open>
  \<^verbatim>\<open>%.pf\<close> of a \<^verbatim>\<open>float64\<close>: the exact value rounded to \<open>p\<close> decimals (ties to
  even), a sign when the value is negative, the integer digits, a point and \<open>p\<close>
  decimals.
\<close>

definition fmt_f :: "nat \<Rightarrow> rat \<Rightarrow> string" where
  "fmt_f p x =
     (let m = round_even (\<bar>x\<bar> * 10 ^ p)
      in (if x < 0 then ''-'' else '''') @ dec (m div 10 ^ p) @ ''.'' @
         padl p (dec (m mod 10 ^ p)))"

subsection \<open>Binary floating point\<close>

text \<open>The number of binary digits of a positive integer.\<close>

function blen :: "int \<Rightarrow> int" where
  "blen n = (if n \<le> 0 then 0 else blen (n div 2) + 1)"
  by pat_completeness auto
termination
  by (relation "measure nat") auto

declare blen.simps [simp del]

definition pow2 :: "int \<Rightarrow> rat" where
  "pow2 e = (if 0 \<le> e then 2 ^ nat e else 1 / 2 ^ nat (- e))"

text \<open>The exponent \<open>e\<close> with \<open>2 ^ e \<le> x < 2 ^ (e + 1)\<close>, for a positive \<open>x\<close>.\<close>

definition ilog2 :: "rat \<Rightarrow> int" where
  "ilog2 x =
     (let (a, b) = quotient_of x;
          e0 = blen a - blen b
      in if pow2 e0 \<le> x then e0 else e0 - 1)"

text \<open>
  The \<^verbatim>\<open>float64\<close> nearest to a rational (ties to even, 53 bits of mantissa,
  gradual underflow below \<open>2 ^ -1022\<close>), for magnitudes below \<open>2 ^ 1024\<close>.
\<close>

definition f64 :: "rat \<Rightarrow> rat" where
  "f64 x =
     (if x = 0 then 0
      else let u = pow2 (max (ilog2 \<bar>x\<bar>) (- 1022) - 52);
               y = of_int (round_even (\<bar>x\<bar> / u)) * u
           in if x < 0 then - y else y)"

text \<open>
  \<^verbatim>\<open>ts.UnixNano()\<close>: the seconds scaled to nanoseconds plus the nanoseconds, in
  \<^verbatim>\<open>int64\<close> arithmetic, which wraps around.
\<close>

definition UnixNano :: "time \<Rightarrow> int" where
  "UnixNano t = sint (word_of_int (unixSec t) * 1000000000 + word_of_int (nsec t) :: 64 word)"

text \<open>\<^verbatim>\<open>math.Modf\<close>: the integer part (towards zero) and the fractional part.\<close>

definition Modf :: "rat \<Rightarrow> rat \<times> rat" where
  "Modf f = (let i = (if f < 0 then - of_int \<lfloor>- f\<rfloor> else of_int \<lfloor>f\<rfloor>) in (i, f - i))"

text \<open>\<^verbatim>\<open>int(f64)\<close> of a value without fractional part.\<close>

definition int_of_f64 :: "'ts golib \<Rightarrow> rat \<Rightarrow> int" where
  "int_of_f64 L f =
     (if - (2 ^ 63) \<le> f \<and> f < 2 ^ 63 then (if f < 0 then - \<lfloor>- f\<rfloor> else \<lfloor>f\<rfloor>)
      else int_out_of_range L f)"

text \<open>\<^verbatim>\<open>%v\<close> of a decoded value that is not a \<^verbatim>\<open>float64\<close>.\<close>

definition fmt_v :: "'ts golib \<Rightarrow> jvalue \<Rightarrow> string" where
  "fmt_v L v =
     (case v of
        JStr s \<Rightarrow> s
      | JBool b \<Rightarrow> (if b then ''true'' else ''false'')
      | JNull \<Rightarrow> ''<nil>''
      | _ \<Rightarrow> fmt_v_composite L v)"

text \<open>\<^verbatim>\<open>bytes.IndexByte\<close>: the index of the first occurrence, or -1.\<close>

fun IndexByte :: "string \<Rightarrow> char \<Rightarrow> int" where
  "IndexByte [] c = - 1"
| "IndexByte (x # xs) c =
     (if x = c then 0 else (let i = IndexByte xs c in if i = - 1 then - 1 else i + 1))"

text \<open>\<^verbatim>\<open>strings.Split\<close> with a separator of one byte.\<close>

fun Split :: "string \<Rightarrow> char \<Rightarrow> string list" where
  "Split [] c = [[]]"
| "Split (x # xs) c =
     (if x = c then [] # Split xs c
      else (case Split xs c of [] \<Rightarrow> [[x]] | y # ys \<Rightarrow> (x # y) # ys))"

section \<open>The line emitter\<close>

definition tab :: char where
  "tab = CHR 0x09"

text \<open>The bytes that \<^verbatim>\<open>emitLine\<close> writes for one header after the tab.\<close>

definition column :: "'ts golib \<Rightarrow> jobject \<Rightarrow> string \<Rightarrow> string" where
  "column L mp h =
     (case map_of mp h of
        Some v \<Rightarrow>
          (case v of
             JNum x \<Rightarrow>
               (if snd (Modf x) = 0 then fmt_d (int_of_f64 L x) else fmt_f 5 x)
           | _ \<Rightarrow> fmt_v L v)
      | None \<Rightarrow> ''-'')"

definition ts_column :: "time \<Rightarrow> string" where
  "ts_column ts = fmt_f 6 (f64 (f64 (of_int (UnixNano ts)) / 1000000000))"

text \<open>
  \<^verbatim>\<open>emitLine\<close>. Slicing \<^verbatim>\<open>headers[1:]\<close> of an empty slice panics: that is
  the result \<open>None\<close>.
\<close>

definition emitLine :: "'ts golib \<Rightarrow> time \<Rightarrow> string list \<Rightarrow> jobject \<Rightarrow> (string \<times> bool) option" where
  "emitLine L ts headers mp =
     (case headers of
        [] \<Rightarrow> None
      | _ # hs \<Rightarrow> Some (foldl (\<lambda>bb h. bb @ tab # column L mp h) (ts_column ts) hs, True))"

section \<open>The processor\<close>

definition CorelightProcessor :: string where
  "CorelightProcessor = ''corelight''"

definition defaultTag :: string where
  "defaultTag = ''''"

definition defaultPrefix :: string where
  "defaultPrefix = ''zeek''"

record CorelightConfig =
  Prefix :: string

text \<open>
  The \<^verbatim>\<open>Corelight\<close> struct. The tagger is the collaborator behind
  \<^verbatim>\<open>NegotiateTag\<close>; a Go map is a partial function, and a \<^verbatim>\<open>nil\<close> map
  the empty one.
\<close>

record 't Corelight =
  tg :: "string \<Rightarrow> error + 't"
  tagFields :: "string \<rightharpoonup> string list"
  tags :: "string \<rightharpoonup> 't"
  CorelightConfig :: CorelightConfig

text \<open>The table \<^verbatim>\<open>tagHeaders\<close>, in the order of the source text.\<close>

definition tagHeaders :: "(string \<times> string) list" where
  "tagHeaders = [
    (''conn'',
     ''ts,uid,id.orig_h,id.orig_p,id.resp_h,id.resp_p,proto,service,duration,id.orig_ip_bytes,id.resp_ip_bytes,conn_state,local_orig,local_resp,missed_bytes,history,id.orig_pkts,id.orig_ip_bytes,id.resp_pkts,id.resp_ip_bytes,tunnel_parents,vlan''),
    (''dhcp'',
     ''ts,uids,client_addr,server_addr,mac,host_name,client_fqdn,domain,requested_addr,assigned_addr,lease_time,client_message,server_message,msg_types,duration''),
    (''dns'',
     ''ts,uid,id.orig_h,id.orig_p,id.resp_h,id.resp_p,proto,trans_id,rtt,query,qclass,qclass_name,qtype,qtype_name,rcode,rcode_name,AA,TC,RD,RA,Z,answers,TTLs,rejected''),
    (''files'',
     ''ts,fuid,tx_hosts,rx_hosts,conn_uids,source,depth,analyzers,mime_type,filename,duration,local_orig,is_orig,seen_bytes,total_bytes,missing_bytes,overflow_bytes,timedout,parent_fuid,md5,sha1,sha256,extracted,extracted_cutoff,extracted_size''),
    (''http'',
     ''ts,uid,id.orig_h,id.orig_p,id.resp_h,id.resp_p,trans_depth,method,host,uri,referrer,version,user_agent,id.origin,request_body_len,id.response_body_len,status_code,status_msg,info_code,info_msg,tags,username,password,proxied,id.orig_fuids,id.orig_filenames,id.orig_mime_types,id.resp_fuids,id.resp_filenames,id.resp_mime_types''),
    (''ssl'',
     ''ts,uid,id.orig_h,id.orig_p,id.resp_h,id.resp_p,version,cipher,curve,server_name,resumed,last_alert,next_protocol,established,cert_chain_fuids,client_cert_chain_fuids,subject,issuer,client_subject,client_issuer,validation_status''),
    (''weird'',
     ''ts,uid,id.orig_h,id.orig_p,id.resp_h,id.resp_p,name,addl,notice,peer''),
    (''x509'',
     ''ts,uid,version,serial,subject,issuer,not_valid_before,not_valid_after,key_alg,sig_alg,key_type,key_length,exponent,curve,dns,uri,email,ip,ca,path_len''),
    (''ssh'',
     ''ts,uid,id.orig_h,id.orig_p,id.resp_h,id.resp_p,version,auth_success,auth_attempts,direction,client,server,cipher_alg,mac_alg,compression_alg,kex_alg,host_key_alg,host_key,inferences''),
    (''sip'',
     ''ts,uid,id.orig_h,id.orig_p,id.resp_h,id.resp_p,trans_depth,method,uri,date,request_fromrequest_to,id.response_from,id.response_to,reply_to,call_id,seq,subject,request_path,id.response_path,user_agent,status_code,status_msg,warning,request_body_len,id.response_body_len,content_type''),
    (''dpd'',
     ''ts,uid,id.orig_h,id.orig_p,id.resp_h,id.resp_p,proto,analyzer,failure_reason,packet_segment''),
    (''snmp'',
     ''ts,uid,id.orig_h,id.orig_p,id.resp_h,id.resp_p,duration,version,community,get_requests,get_bulk_requests,get_responses,set_requests,display_string,up_since''),
    (''smtp'',
     ''ts,uid,id.orig_h,id.orig_p,id.resp_h,id.resp_p,trans_depth,helo,mailfrom''),
    (''pe'',
     ''ts,uid,machine,compile_ts,os,subsystem,is_exe,is_64bit,uses_aslr,uses_dep''),
    (''tunnel'',
     ''ts,uid,id.orig_h,id.orig_p,id.resp_h,id.resp_p,tunnel_type,action''),
    (''socks'',
     ''ts,uid,id.orig_h,id.orig_p,id.resp_h,id.resp_p,version,user,password,status,request,request_host,request_name,request_port,bound_host,bound_name''),
    (''software'',
     ''ts,host,host_port,software_type,name,major,minor,minor2,minor3,addl,unparsed_version''),
    (''syslog'',
     ''ts,uid,id.orig_h,id.orig_p,id.resp_h,id.resp_p,proto,facility,severity,message''),
    (''rfb'',
     ''ts,uid,id.orig_h,id.orig_p,id.resp_h,id.resp_p,client_major_version,client_minor_version,server_major_version,server_minor_version,authentication_method,auth,share_flag,desktop_name,width,height''),
    (''radius'',
     ''ts,uid,id.orig_h,id.orig_p,id.resp_h,id.resp_p,username,mac,remote_ip,connect_info,result,logged''),
    (''rdp'',
     ''ts,uid,id.orig_h,id.orig_p,id.resp_h,id.resp_p,cookie,result,security_protocol,client_build,client_name,client_dig_product_id,desktop_width,desktop_height,requested_color_depth,cert_type,cert_count,cert_permanent,encryption_level,encryption_method''),
    (''ftp'',
     ''ts,uid,id.orig_h,id.orig_p,id.resp_h,id.resp_p,user,password,command,arg,mime_type,file_size,reply_code,reply_msg,data_channel.passive,data_channel.orig_h,data_channel.resp_h,data_channel.resp_p,fuid''),
    (''intel'',
     ''ts,uid,id.orig_h,id.orig_p,id.resp_h,id.resp_p,indicator,indicator_type,seen_where,seen_node,matched,sources,fuid,file_mime_type,file_desc''),
    (''irc'',
     ''ts,uid,id.orig_h,id.orig_p,id.resp_h,id.resp_p,nick,user,command,value,additional_info,dcc_file_name,dcc_file_size,dcc_mime_type,fuid''),
    (''kerberos'',
     ''ts,uid,id.orig_h,id.orig_p,id.resp_h,id.resp_p,request_type,client,service,success,error_msg,from,till,cipher,forwardable,renewable,client_cert,client_cert_fuid,server_cert_subject,server_cert_fuid''),
    (''mysql'',
     ''ts,uid,id.orig_h,id.orig_p,id.resp_h,id.resp_p,cmd,arg,success,rows,id.response''),
    (''modbus'',
     ''ts,uid,id.orig_h,id.orig_p,id.resp_h,id.resp_p,func,exception''),
    (''notice'',
     ''ts,uid,id.orig_h,id.orig_p,id.resp_h,id.resp_p,fuid,mime,desc,proto,note,msg,sub,src,dst,p,n,peer_descr,actions,suppress_for,dropped,destination_country_code,destination_region,destination_city,destination_latitude,destination_longitude''),
    (''signature'',
     ''ts,uid,id.orig_h,id.orig_p,id.resp_h,id.resp_p,note,sig_id,event_msg,sub_msg,sig_count,host_count''),
    (''smb_mapping'',
     ''ts,uid,id.orig_h,id.orig_p,id.resp_h,id.resp_p,path,service,native_file_system,share_type''),
    (''smb_files'',
     ''ts,uid,id.orig_h,id.orig_p,id.resp_h,id.resp_p,fuid,action,path,name,size,prev_name,modified,accessed,created,changed''),
    (''zeekdnp3'',
     ''ts,uid,id,fc_request,fc_reply,iin'')
  ]"

text \<open>
  \<^verbatim>\<open>CorelightLoadConfig\<close>. The argument stands for \<^verbatim>\<open>vc.MapTo(&c)\<close>: the
  configuration it filled in and the error it returned, if any.
\<close>

definition CorelightLoadConfig :: "CorelightConfig \<times> error option \<Rightarrow> CorelightConfig \<times> error option" where
  "CorelightLoadConfig MapTo =
     (case MapTo of
        (c, Some err) \<Rightarrow> (c, Some err)
      | (c, None) \<Rightarrow>
          (if Prefix c = '''' then (c\<lparr>Prefix := defaultPrefix\<rparr>, None) else (c, None)))"

text \<open>
  The loop of \<^verbatim>\<open>init\<close>. Go ranges over a map in an unspecified order: the
  list holds the entries of \<^verbatim>\<open>tagHeaders\<close> in the order of the iteration.
  The receiver is updated in place, so it is returned on the error path too.
\<close>

fun init_loop :: "'t Corelight \<Rightarrow> (string \<times> string) list \<Rightarrow> error option \<times> 't Corelight" where
  "init_loop c [] = (None, c)"
| "init_loop c ((k, v) # kvs) =
     (let tagName = Prefix (CorelightConfig c) @ k;
          c1 = c\<lparr>tagFields := (tagFields c)(tagName \<mapsto> Split v CHR '','')\<rparr>
      in case tg c1 tagName of
           Inl err \<Rightarrow> (Some err, c1)
         | Inr tv \<Rightarrow> init_loop (c1\<lparr>tags := (tags c1)(tagName \<mapsto> tv)\<rparr>) kvs)"

definition range_of_tagHeaders :: "(string \<times> string) list \<Rightarrow> bool" where
  "range_of_tagHeaders kvs = (distinct kvs \<and> set kvs = set tagHeaders)"

text \<open>\<^verbatim>\<open>init\<close>: its two parameters are not read, the receiver's fields are.\<close>

definition init :: "'t Corelight \<Rightarrow> CorelightConfig \<Rightarrow> (string \<Rightarrow> error + 't) \<Rightarrow>
    (string \<times> string) list \<Rightarrow> error option \<times> 't Corelight" where
  "init c cfg tagger kvs =
     (let c1 = (if Prefix (CorelightConfig c) = ''''
                then c\<lparr>CorelightConfig := (CorelightConfig c)\<lparr>Prefix := defaultPrefix\<rparr>\<rparr>
                else c);
          c2 = c1\<lparr>tagFields := Map.empty\<rparr>;
          c3 = c2\<lparr>tags := Map.empty\<rparr>
      in init_loop c3 kvs)"

text \<open>\<^verbatim>\<open>NewCorelight\<close>: the error, or the constructed processor.\<close>

definition NewCorelight :: "CorelightConfig \<Rightarrow> (string \<Rightarrow> error + 't) \<Rightarrow>
    (string \<times> string) list \<Rightarrow> error + 't Corelight" where
  "NewCorelight cfg tagger kvs =
     (let rr = \<lparr>tg = tagger, tagFields = Map.empty, tags = Map.empty, CorelightConfig = cfg\<rparr>
      in case init rr cfg tagger kvs of
           (Some err, _) \<Rightarrow> Inl err
         | (None, rr') \<Rightarrow> Inr rr')"

text \<open>The zero \<^verbatim>\<open>time.Time\<close>: January 1 of year 1, 00:00:00 UTC.\<close>

definition zero_time :: time where
  "zero_time = \<lparr>unixSec = - 62135596800, nsec = 0\<rparr>"

definition getTagTs :: "'ts golib \<Rightarrow> 't Corelight \<Rightarrow> jobject \<Rightarrow> string \<times> time \<times> bool" where
  "getTagTs L c mp =
     (case map_of mp ''_path'' of
        None \<Rightarrow> ('''', zero_time, False)
      | Some tagv \<Rightarrow>
          (case map_of mp ''ts'' of
             None \<Rightarrow> ('''', zero_time, False)
           | Some tsv \<Rightarrow>
               (case tagv of
                  JStr tagval \<Rightarrow>
                    (case tsv of
                       JStr tss \<Rightarrow>
                         (case time_Parse L tss of
                            None \<Rightarrow> ('''', zero_time, False)
                          | Some ts \<Rightarrow> (Prefix (CorelightConfig c) @ tagval, ts, True))
                     | _ \<Rightarrow> ('''', zero_time, False))
                | _ \<Rightarrow> ('''', zero_time, False))))"

text \<open>\<^verbatim>\<open>process\<close>; \<open>None\<close> is the panic of \<^verbatim>\<open>emitLine\<close>.\<close>

definition process :: "'ts golib \<Rightarrow> 't Corelight \<Rightarrow> jobject \<Rightarrow> string \<Rightarrow> (string \<times> time \<times> string) option" where
  "process L c mp og =
     (if mp = [] then Some (defaultTag, zero_time, og)
      else case getTagTs L c mp of
        (tag, ts, ok) \<Rightarrow>
          if \<not> ok then Some (defaultTag, ts, og)
          else (case tagFields c tag of
                  None \<Rightarrow> Some (defaultTag, ts, og)
                | Some headers \<Rightarrow>
                    (case emitLine L ts headers mp of
                       None \<Rightarrow> None
                     | Some (line, ok') \<Rightarrow>
                         if \<not> ok' then Some (defaultTag, ts, og) else Some (tag, ts, line))))"

definition processLine :: "'ts golib \<Rightarrow> 't Corelight \<Rightarrow> string \<Rightarrow> (string \<times> time \<times> string) option" where
  "processLine L c s =
     (let idx = IndexByte s CHR ''{''
      in if idx = - 1 then Some (defaultTag, zero_time, s)
         else let line = drop (nat idx) s
              in case json_Unmarshal L line of
                   None \<Rightarrow> Some (defaultTag, zero_time, line)
                 | Some mp \<Rightarrow> process L c mp line)"

text \<open>
  An \<^verbatim>\<open>entry.Entry\<close>, with the fields the processor reads or writes. A batch is a
  slice of pointers: a list of addresses (\<open>None\<close> is \<^verbatim>\<open>nil\<close>) into a store of
  entries.
\<close>

record ('t, 'ts) Entry =
  TS :: 'ts
  Tag :: 't
  Data :: string

type_synonym addr = nat

type_synonym ('t, 'ts) store = "addr \<Rightarrow> ('t, 'ts) Entry"

text \<open>The body of the loop of \<^verbatim>\<open>Process\<close>, for one element of the slice.\<close>

definition Process_ent :: "'ts golib \<Rightarrow> 't Corelight \<Rightarrow> addr option \<Rightarrow> ('t, 'ts) store \<Rightarrow> ('t, 'ts) store option" where
  "Process_ent L c ent h =
     (case ent of
        None \<Rightarrow> Some h
      | Some a \<Rightarrow>
          if Data (h a) = [] then Some h
          else (case processLine L c (Data (h a)) of
                  None \<Rightarrow> None
                | Some (tag, ts, line) \<Rightarrow>
                    if tag \<noteq> defaultTag then
                      (case tags c tag of
                         Some tv \<Rightarrow>
                           Some (h(a := (h a)\<lparr>Tag := tv, TS := FromStandard L ts, Data := line\<rparr>))
                       | None \<Rightarrow> Some h)
                    else Some h))"

fun Process_loop :: "'ts golib \<Rightarrow> 't Corelight \<Rightarrow> addr option list \<Rightarrow> ('t, 'ts) store \<Rightarrow> ('t, 'ts) store option" where
  "Process_loop L c [] h = Some h"
| "Process_loop L c (ent # ents) h =
     (case Process_ent L c ent h of
        None \<Rightarrow> None
      | Some h' \<Rightarrow> Process_loop L c ents h')"

text \<open>
  \<^verbatim>\<open>Process\<close>: the returned slice, the returned error and the store after the
  call; \<open>None\<close> when the call panics.
\<close>

definition Process :: "'ts golib \<Rightarrow> 't Corelight \<Rightarrow> addr option list \<Rightarrow> ('t, 'ts) store \<Rightarrow>
    (addr option list \<times> error option \<times> ('t, 'ts) store) option" where
  "Process L c ents h =
     (if length ents = 0 then Some (ents, None, h)
      else case Process_loop L c ents h of
             None \<Rightarrow> None
           | Some h' \<Rightarrow> Some (ents, None, h'))"

section \<open>Predicates of the statements and a concrete run\<close>

definition tagName_set :: "string \<Rightarrow> (string \<times> string) list \<Rightarrow> string set" where
  "tagName_set p kvs = (\<lambda>kv. p @ fst kv) ` set kvs"

definition effective_prefix :: "CorelightConfig \<Rightarrow> string" where
  "effective_prefix cfg = (if Prefix cfg = [] then defaultPrefix else Prefix cfg)"

definition initialized :: "'t Corelight \<Rightarrow> bool" where
  "initialized c =
     (Prefix (CorelightConfig c) \<noteq> [] \<and> dom (tags c) = dom (tagFields c) \<and>
      (\<forall>n. tagFields c n \<noteq> Some []))"

definition failure_condition :: "'ts golib \<Rightarrow> 't Corelight \<Rightarrow> string \<Rightarrow> bool" where
  "failure_condition L c d =
     (d = [] \<or> CHR ''{'' \<notin> set d \<or>
      (case json_Unmarshal L (dropWhile (\<lambda>b. b \<noteq> CHR ''{'') d) of
         None \<Rightarrow> True
       | Some mp \<Rightarrow>
           mp = [] \<or>
           (case map_of mp ''_path'' of
              Some (JStr p) \<Rightarrow>
                (case map_of mp ''ts'' of
                   Some (JStr t) \<Rightarrow>
                     (case time_Parse L t of
                        None \<Rightarrow> True
                      | Some ts \<Rightarrow>
                          (case tagFields c (Prefix (CorelightConfig c) @ p) of
                             None \<Rightarrow> True
                           | Some headers \<Rightarrow>
                               (case emitLine L ts headers mp of
                                  Some (line, ok) \<Rightarrow> \<not> ok
                                | None \<Rightarrow> False)))
                 | _ \<Rightarrow> True)
            | _ \<Rightarrow> True)))"

definition cfg_ex :: CorelightConfig where
  "cfg_ex = \<lparr>Prefix = []\<rparr>"

definition tagger_ex :: "string \<Rightarrow> error + nat" where
  "tagger_ex name = Inr (length name)"

definition ts_text :: string where
  "ts_text = ''2021-01-01T00:00:00.000000Z''"

definition ts_value :: time where
  "ts_value = \<lparr>unixSec = 1609459200, nsec = 0\<rparr>"

definition conn_payload :: string where
  \<open>conn_payload =
     ''{"_path":"conn","ts":"2021-01-01T00:00:00.000000Z","uid":"abc","id.orig_h":"1.2.3.4"}''\<close>

definition conn_object :: jobject where
  "conn_object =
     [(''_path'', JStr ''conn''), (''ts'', JStr ts_text), (''uid'', JStr ''abc''),
      (''id.orig_h'', JStr ''1.2.3.4'')]"

definition backslash :: char where
  "backslash = CHR 0x5C"

definition tab_payload :: string where
  \<open>tab_payload =
     ''{"_path":"weird","ts":"2021-01-01T00:00:00.000000Z","name":"a'' @ [backslash] @ ''tb"}''\<close>

definition tab_object :: jobject where
  "tab_object =
     [(''_path'', JStr ''weird''), (''ts'', JStr ts_text), (''name'', JStr (''a'' @ [tab] @ ''b''))]"

definition inner_payload :: string where
  \<open>inner_payload = ''{"_path":"dpd","ts":"2021-01-01T00:00:00.000000Z"}''\<close>

definition inner_object :: jobject where
  "inner_object = [(''_path'', JStr ''dpd''), (''ts'', JStr ts_text)]"

fun json_escape :: "string \<Rightarrow> string" where
  "json_escape [] = []"
| "json_escape (x # xs) =
     (if x = CHR 0x22 \<or> x = backslash then backslash # x # json_escape xs
      else x # json_escape xs)"

definition outer_payload :: string where
  \<open>outer_payload =
     ''{"_path":"modbus","ts":"2021-01-01T00:00:00.000000Z","exception":"'' @
     json_escape inner_payload @ ''"}''\<close>

definition outer_object :: jobject where
  "outer_object =
     [(''_path'', JStr ''modbus''), (''ts'', JStr ts_text), (''exception'', JStr inner_payload)]"

definition json_ex :: "string \<Rightarrow> jobject option" where
  "json_ex s =
     (if s = conn_payload then Some conn_object
      else if s = tab_payload then Some tab_object
      else if s = inner_payload then Some inner_object
      else if s = outer_payload then Some outer_object
      else None)"

definition time_ex :: "string \<Rightarrow> time option" where
  "time_ex t = (if t = ts_text then Some ts_value else None)"

definition L_ex :: "time golib" where
  "L_ex = \<lparr>json_Unmarshal = json_ex, time_Parse = time_ex, fmt_v_composite = (\<lambda>v. []),
           int_out_of_range = (\<lambda>x. - (2 ^ 63)), FromStandard = (\<lambda>t. t)\<rparr>"

definition c_ex :: "nat Corelight" where
  "c_ex = projr (NewCorelight cfg_ex tagger_ex tagHeaders)"

definition h_ex :: "(nat, time) store" where
  "h_ex a = \<lparr>TS = zero_time, Tag = 0,
             Data = (if a = 0 then conn_payload
                     else if a = 1 then ''no json here''
                     else if a = 2 then tab_payload
                     else if a = 3 then outer_payload
                     else [])\<rparr>"

definition conn_line :: string where
  "conn_line = ''1609459200.000000'' @ [tab] @ ''abc'' @ [tab] @ ''1.2.3.4'' @
     concat (replicate 19 (tab # ''-''))"

definition h1_ex :: "(nat, time) store" where
  "h1_ex = h_ex(0 := \<lparr>TS = ts_value, Tag = 8, Data = conn_line\<rparr>)"

section \<open>Auxiliary lemmas\<close>

lemma digit_is_digit: "is_digit (digit n)"
proof -
  have "nat (n mod 10) < length ''0123456789''" by simp
  then show ?thesis unfolding digit_def is_digit_def by (rule nth_mem)
qed

lemma dec_digits: "\<forall>c \<in> set (dec n). is_digit c"
proof (induction n rule: dec.induct)
  case (1 n)
  show ?case
  proof (cases "n < 10")
    case True
    then show ?thesis by (subst dec.simps) (simp add: digit_is_digit)
  next
    case False
    with 1 show ?thesis by (subst dec.simps) (simp add: digit_is_digit)
  qed
qed




lemma is_digit_zero: "is_digit CHR ''0''"
  by (simp add: is_digit_def)

lemma padl_digits:
  assumes "\<forall>c \<in> set s. is_digit c"
  shows "\<forall>c \<in> set (padl p s). is_digit c"
proof
  fix c assume "c \<in> set (padl p s)"
  then have "c = CHR ''0'' \<or> c \<in> set s"
    by (auto simp: padl_def)
  with assms show "is_digit c" using is_digit_zero by blast
qed



lemma foldl_emit:
  "foldl (\<lambda>bb h. bb @ c # f h) acc hs = acc @ concat (map (\<lambda>h. c # f h) hs)"
  by (induction hs arbitrary: acc) simp_all

lemma emitLine_Cons:
  "emitLine L ts (h0 # hs) mp =
     Some (ts_column ts @ concat (map (\<lambda>h. tab # column L mp h) hs), True)"
  by (simp add: emitLine_def foldl_emit)

lemma Split_nonempty: "Split s c \<noteq> []"
  by (induction s) (auto split: list.splits)

lemma Split_no_sep: "c \<notin> set s \<Longrightarrow> Split s c = [s]"
  by (induction s) auto

lemma Split_append_sep: "c \<notin> set a \<Longrightarrow> Split (a @ c # rest) c = a # Split rest c"
  by (induction a) auto

lemma Split_join:
  "c \<notin> set a \<Longrightarrow> \<forall>x \<in> set xs. c \<notin> set x \<Longrightarrow>
     Split (a @ concat (map (\<lambda>x. c # x) xs)) c = a # xs"
proof (induction xs arbitrary: a)
  case Nil
  then show ?case by (simp add: Split_no_sep)
next
  case (Cons x xs)
  have "Split (a @ c # (x @ concat (map (\<lambda>x. c # x) xs))) c
      = a # Split (x @ concat (map (\<lambda>x. c # x) xs)) c"
    using Cons.prems(1) by (rule Split_append_sep)
  moreover have "Split (x @ concat (map (\<lambda>x. c # x) xs)) c = x # xs"
    using Cons.prems(2) by (intro Cons.IH) auto
  ultimately show ?case by simp
qed

lemma IndexByte_ge: "- 1 \<le> IndexByte s c"
  by (induction s) (auto simp: Let_def)

lemma IndexByte_notin: "(IndexByte s c = - 1) = (c \<notin> set s)"
proof (induction s)
  case Nil
  show ?case by simp
next
  case (Cons x xs)
  have "- 1 \<le> IndexByte xs c" by (rule IndexByte_ge)
  then have "IndexByte xs c + 1 \<noteq> - 1" by arith
  with Cons show ?case by (auto simp: Let_def)
qed

lemma IndexByte_drop:
  "c \<in> set s \<Longrightarrow> \<exists>rest. drop (nat (IndexByte s c)) s = c # rest"
proof (induction s)
  case Nil
  then show ?case by simp
next
  case (Cons x xs)
  show ?case
  proof (cases "x = c")
    case True
    then show ?thesis by simp
  next
    case False
    with Cons.prems have in_xs: "c \<in> set xs" by simp
    then have ne: "IndexByte xs c \<noteq> - 1" by (simp add: IndexByte_notin)
    have "- 1 \<le> IndexByte xs c" by (rule IndexByte_ge)
    with ne have "0 \<le> IndexByte xs c" by arith
    then have "nat (IndexByte xs c + 1) = Suc (nat (IndexByte xs c))" by arith
    with False ne Cons.IH[OF in_xs] show ?thesis by (simp add: Let_def)
  qed
qed

lemma init_loop_keeps:
  "init_loop c kvs = (r, c') \<Longrightarrow> CorelightConfig c' = CorelightConfig c \<and> tg c' = tg c"
proof (induction kvs arbitrary: c)
  case Nil
  then show ?case by simp
next
  case (Cons kv kvs)
  obtain k v where kv: "kv = (k, v)" by (cases kv)
  show ?case
  proof (cases "tg c (Prefix (CorelightConfig c) @ k)")
    case (Inl e)
    with Cons.prems kv show ?thesis by (auto simp: Let_def)
  next
    case (Inr tv)
    with Cons.prems kv have
      "init_loop (c\<lparr>tagFields := (tagFields c)(Prefix (CorelightConfig c) @ k \<mapsto> Split v CHR '','')\<rparr>
                   \<lparr>tags := (tags c)(Prefix (CorelightConfig c) @ k \<mapsto> tv)\<rparr>) kvs = (r, c')"
      by (simp add: Let_def)
    from Cons.IH[OF this] show ?thesis by simp
  qed
qed

lemma init_loop_error:
  "init_loop c kvs = (Some e, c') \<Longrightarrow>
     \<exists>kv \<in> set kvs. tg c (Prefix (CorelightConfig c) @ fst kv) = Inl e"
proof (induction kvs arbitrary: c)
  case Nil
  then show ?case by simp
next
  case (Cons kv kvs)
  obtain k v where kv: "kv = (k, v)" by (cases kv)
  show ?case
  proof (cases "tg c (Prefix (CorelightConfig c) @ k)")
    case (Inl e')
    with Cons.prems kv show ?thesis by (auto simp: Let_def)
  next
    case (Inr tv)
    with Cons.prems kv have
      "init_loop (c\<lparr>tagFields := (tagFields c)(Prefix (CorelightConfig c) @ k \<mapsto> Split v CHR '','')\<rparr>
                   \<lparr>tags := (tags c)(Prefix (CorelightConfig c) @ k \<mapsto> tv)\<rparr>) kvs = (Some e, c')"
      by (simp add: Let_def)
    from Cons.IH[OF this] show ?thesis by simp
  qed
qed

lemma init_loop_fails:
  "kv \<in> set kvs \<Longrightarrow> tg c (Prefix (CorelightConfig c) @ fst kv) = Inl e \<Longrightarrow>
     fst (init_loop c kvs) \<noteq> None"
proof (induction kvs arbitrary: c)
  case Nil
  then show ?case by simp
next
  case (Cons kv0 kvs)
  obtain k v where kv0: "kv0 = (k, v)" by (cases kv0)
  show ?case
  proof (cases "tg c (Prefix (CorelightConfig c) @ k)")
    case (Inl e')
    with kv0 show ?thesis by (simp add: Let_def)
  next
    case (Inr tv)
    with Cons.prems kv0 have "kv \<in> set kvs" by auto
    from Cons.IH[OF this, of "c\<lparr>tagFields := (tagFields c)(Prefix (CorelightConfig c) @ k \<mapsto> Split v CHR '','')\<rparr>
                   \<lparr>tags := (tags c)(Prefix (CorelightConfig c) @ k \<mapsto> tv)\<rparr>"]
      Cons.prems(2) Inr kv0
    show ?thesis by (simp add: Let_def)
  qed
qed

lemma init_loop_tables:
  "init_loop c kvs = (None, c') \<Longrightarrow>
     dom (tags c') = dom (tags c) \<union> tagName_set (Prefix (CorelightConfig c)) kvs \<and>
     dom (tagFields c') = dom (tagFields c) \<union> tagName_set (Prefix (CorelightConfig c)) kvs \<and>
     (\<forall>n. n \<notin> tagName_set (Prefix (CorelightConfig c)) kvs \<longrightarrow>
          tags c' n = tags c n \<and> tagFields c' n = tagFields c n) \<and>
     (\<forall>kv \<in> set kvs. \<exists>tv. tg c (Prefix (CorelightConfig c) @ fst kv) = Inr tv \<and>
          tags c' (Prefix (CorelightConfig c) @ fst kv) = Some tv) \<and>
     (\<forall>n hs. tagFields c' n = Some hs \<longrightarrow> tagFields c n = Some hs \<or> hs \<noteq> [])"
proof (induction kvs arbitrary: c)
  case Nil
  then show ?case by (simp add: tagName_set_def)
next
  case (Cons kv kvs)
  obtain k v where kv: "kv = (k, v)" by (cases kv)
  define p where "p = Prefix (CorelightConfig c)"
  show ?case
  proof (cases "tg c (p @ k)")
    case (Inl e)
    with Cons.prems kv show ?thesis by (simp add: Let_def p_def)
  next
    case (Inr tv)
    define c2 where "c2 = c\<lparr>tagFields := (tagFields c)(p @ k \<mapsto> Split v CHR '','')\<rparr>
                           \<lparr>tags := (tags c)(p @ k \<mapsto> tv)\<rparr>"
    from Inr Cons.prems kv have run: "init_loop c2 kvs = (None, c')"
      by (simp add: Let_def p_def c2_def)
    have p2: "Prefix (CorelightConfig c2) = p" by (simp add: c2_def p_def)
    have tg2: "tg c2 = tg c" by (simp add: c2_def)
    note IH = Cons.IH[OF run, unfolded p2 tg2]
    have set_eq: "tagName_set p (kv # kvs) = insert (p @ k) (tagName_set p kvs)"
      by (simp add: tagName_set_def kv)
    have d1: "dom (tags c') = dom (tags c) \<union> tagName_set p (kv # kvs)"
      using IH by (auto simp: set_eq c2_def)
    have d2: "dom (tagFields c') = dom (tagFields c) \<union> tagName_set p (kv # kvs)"
      using IH by (auto simp: set_eq c2_def)
    have d3: "\<forall>n. n \<notin> tagName_set p (kv # kvs) \<longrightarrow>
          tags c' n = tags c n \<and> tagFields c' n = tagFields c n"
      using IH by (auto simp: set_eq c2_def)
    have d4: "\<forall>kv' \<in> set (kv # kvs). \<exists>tv. tg c (p @ fst kv') = Inr tv \<and> tags c' (p @ fst kv') = Some tv"
    proof
      fix kv' assume mem: "kv' \<in> set (kv # kvs)"
      show "\<exists>tv. tg c (p @ fst kv') = Inr tv \<and> tags c' (p @ fst kv') = Some tv"
      proof (cases "kv' \<in> set kvs")
        case True
        with IH show ?thesis by blast
      next
        case False
        with mem kv have fk: "fst kv' = k" by auto
        show ?thesis
        proof (cases "p @ k \<in> tagName_set p kvs")
          case True
          then obtain kv'' where "kv'' \<in> set kvs" "p @ k = p @ fst kv''"
            by (auto simp: tagName_set_def)
          with IH fk show ?thesis by (metis same_append_eq)
        next
          case False
          with IH have "tags c' (p @ k) = tags c2 (p @ k)" by blast
          with Inr fk show ?thesis by (simp add: c2_def)
        qed
      qed
    qed
    have d5: "\<forall>n hs. tagFields c' n = Some hs \<longrightarrow> tagFields c n = Some hs \<or> hs \<noteq> []"
    proof (intro allI impI)
      fix n hs assume a: "tagFields c' n = Some hs"
      with IH have "tagFields c2 n = Some hs \<or> hs \<noteq> []" by blast
      then show "tagFields c n = Some hs \<or> hs \<noteq> []"
        by (auto simp: c2_def Split_nonempty split: if_splits)
    qed
    from d1 d2 d3 d4 d5 show ?thesis unfolding p_def by blast
  qed
qed

lemma init_loop_fields:
  "init_loop c kvs = (None, c') \<Longrightarrow> distinct (map fst kvs) \<Longrightarrow> (k, v) \<in> set kvs \<Longrightarrow>
     tagFields c' (Prefix (CorelightConfig c) @ k) = Some (Split v CHR '','')"
proof (induction kvs arbitrary: c)
  case Nil
  then show ?case by simp
next
  case (Cons kv kvs)
  obtain k0 v0 where kv: "kv = (k0, v0)" by (cases kv)
  define p where "p = Prefix (CorelightConfig c)"
  show ?case
  proof (cases "tg c (p @ k0)")
    case (Inl e)
    with Cons.prems kv show ?thesis by (simp add: Let_def p_def)
  next
    case (Inr tv)
    define c2 where "c2 = c\<lparr>tagFields := (tagFields c)(p @ k0 \<mapsto> Split v0 CHR '','')\<rparr>
                           \<lparr>tags := (tags c)(p @ k0 \<mapsto> tv)\<rparr>"
    from Inr Cons.prems kv have run: "init_loop c2 kvs = (None, c')"
      by (simp add: Let_def p_def c2_def)
    have p2: "Prefix (CorelightConfig c2) = p" by (simp add: c2_def p_def)
    from Cons.prems(2) have dist: "distinct (map fst kvs)" and k0: "k0 \<notin> fst ` set kvs"
      by (auto simp: kv)
    show ?thesis
    proof (cases "(k, v) \<in> set kvs")
      case True
      from Cons.IH[OF run dist True] show ?thesis by (simp add: p2 p_def)
    next
      case False
      with Cons.prems(3) kv have eq: "k = k0" "v = v0" by auto
      have "p @ k0 \<notin> tagName_set p kvs" using k0 by (auto simp: tagName_set_def)
      with init_loop_tables[OF run] have "tagFields c' (p @ k0) = tagFields c2 (p @ k0)"
        by (simp add: p2)
      then show ?thesis by (simp add: eq c2_def p_def)
    qed
  qed
qed

lemma distinct_tagHeaders_keys: "distinct (map fst tagHeaders)"
  unfolding tagHeaders_def by simp

lemma range_distinct_keys:
  assumes "range_of_tagHeaders kvs"
  shows "distinct (map fst kvs)"
proof -
  from assms have d: "distinct kvs" and s: "set kvs = set tagHeaders"
    by (simp_all add: range_of_tagHeaders_def)
  have "inj_on fst (set tagHeaders)"
    using distinct_tagHeaders_keys by (metis distinct_map)
  with s have "inj_on fst (set kvs)" by simp
  with d show ?thesis by (simp add: distinct_map)
qed

lemma range_tagHeaders: "range_of_tagHeaders tagHeaders"
proof -
  have "distinct tagHeaders" using distinct_tagHeaders_keys by (rule distinct_map[THEN iffD1, THEN conjunct1])
  then show ?thesis by (simp add: range_of_tagHeaders_def)
qed

lemma NewCorelight_Inr:
  assumes "NewCorelight cfg tagger kvs = Inr c"
  shows "Prefix (CorelightConfig c) = effective_prefix cfg"
    and "tg c = tagger"
    and "dom (tags c) = tagName_set (effective_prefix cfg) kvs"
    and "dom (tagFields c) = tagName_set (effective_prefix cfg) kvs"
    and "\<forall>kv \<in> set kvs. \<exists>tv. tagger (effective_prefix cfg @ fst kv) = Inr tv \<and>
           tags c (effective_prefix cfg @ fst kv) = Some tv"
    and "\<forall>n. tagFields c n \<noteq> Some []"
    and "distinct (map fst kvs) \<Longrightarrow> (k, v) \<in> set kvs \<Longrightarrow>
           tagFields c (effective_prefix cfg @ k) = Some (Split v CHR '','')"
proof -
  define c0 :: "'a Corelight" where
    "c0 = \<lparr>tg = tagger, tagFields = Map.empty, tags = Map.empty,
           CorelightConfig = \<lparr>Prefix = effective_prefix cfg\<rparr>\<rparr>"
  have init_eq: "init \<lparr>tg = tagger, tagFields = Map.empty, tags = Map.empty, CorelightConfig = cfg\<rparr>
      cfg tagger kvs = init_loop c0 kvs"
    by (cases cfg) (simp add: init_def c0_def effective_prefix_def Let_def)
  from assms have run: "init_loop c0 kvs = (None, c)"
    by (auto simp: NewCorelight_def Let_def init_eq split: prod.splits option.splits)
  have p0: "Prefix (CorelightConfig c0) = effective_prefix cfg" by (simp add: c0_def)
  have t0: "tg c0 = tagger" by (simp add: c0_def)
  from init_loop_keeps[OF run] show "Prefix (CorelightConfig c) = effective_prefix cfg"
    by (simp add: p0)
  from init_loop_keeps[OF run] show "tg c = tagger" by (simp add: t0)
  note T = init_loop_tables[OF run, unfolded p0 t0]
  from T show "dom (tags c) = tagName_set (effective_prefix cfg) kvs" by (simp add: c0_def)
  from T show "dom (tagFields c) = tagName_set (effective_prefix cfg) kvs" by (simp add: c0_def)
  from T show "\<forall>kv \<in> set kvs. \<exists>tv. tagger (effective_prefix cfg @ fst kv) = Inr tv \<and>
           tags c (effective_prefix cfg @ fst kv) = Some tv" by blast
  show "\<forall>n. tagFields c n \<noteq> Some []"
  proof
    fix n
    from T have "tagFields c n = Some [] \<longrightarrow> tagFields c0 n = Some [] \<or> ([]::string list) \<noteq> []" by blast
    then show "tagFields c n \<noteq> Some []" by (simp add: c0_def)
  qed
  show "tagFields c (effective_prefix cfg @ k) = Some (Split v CHR '','')"
    if "distinct (map fst kvs)" "(k, v) \<in> set kvs"
    using init_loop_fields[OF run that] by (simp add: p0)
qed

lemma NewCorelight_Inl:
  assumes "NewCorelight cfg tagger kvs = Inl e"
  shows "\<exists>kv \<in> set kvs. tagger (effective_prefix cfg @ fst kv) = Inl e"
proof -
  define c0 :: "'a Corelight" where
    "c0 = \<lparr>tg = tagger, tagFields = Map.empty, tags = Map.empty,
           CorelightConfig = \<lparr>Prefix = effective_prefix cfg\<rparr>\<rparr>"
  have init_eq: "init \<lparr>tg = tagger, tagFields = Map.empty, tags = Map.empty, CorelightConfig = cfg\<rparr>
      cfg tagger kvs = init_loop c0 kvs"
    by (cases cfg) (simp add: init_def c0_def effective_prefix_def Let_def)
  from assms obtain c' where run: "init_loop c0 kvs = (Some e, c')"
    by (auto simp: NewCorelight_def Let_def init_eq split: prod.splits option.splits)
  from init_loop_error[OF run] show ?thesis by (simp add: c0_def)
qed

lemma NewCorelight_fails:
  assumes "kv \<in> set kvs" "tagger (effective_prefix cfg @ fst kv) = Inl e"
  shows "\<exists>e'. NewCorelight cfg tagger kvs = Inl e'"
proof -
  define c0 :: "'a Corelight" where
    "c0 = \<lparr>tg = tagger, tagFields = Map.empty, tags = Map.empty,
           CorelightConfig = \<lparr>Prefix = effective_prefix cfg\<rparr>\<rparr>"
  have init_eq: "init \<lparr>tg = tagger, tagFields = Map.empty, tags = Map.empty, CorelightConfig = cfg\<rparr>
      cfg tagger kvs = init_loop c0 kvs"
    by (cases cfg) (simp add: init_def c0_def effective_prefix_def Let_def)
  have "tg c0 (Prefix (CorelightConfig c0) @ fst kv) = Inl e"
    using assms(2) by (simp add: c0_def)
  from init_loop_fails[OF assms(1) this] have "fst (init_loop c0 kvs) \<noteq> None" .
  then show ?thesis
    by (auto simp: NewCorelight_def Let_def init_eq split: prod.splits option.splits)
qed

lemma NewCorelight_initialized:
  assumes "NewCorelight cfg tagger kvs = Inr c"
  shows "initialized c"
proof -
  have "effective_prefix cfg \<noteq> []"
    by (simp add: effective_prefix_def defaultPrefix_def)
  with NewCorelight_Inr(1,3,4,6)[OF assms] show ?thesis
    by (simp add: initialized_def)
qed

lemma drop_IndexByte:
  "c \<in> set s \<Longrightarrow> drop (nat (IndexByte s c)) s = dropWhile (\<lambda>b. b \<noteq> c) s"
proof (induction s)
  case Nil
  then show ?case by simp
next
  case (Cons x xs)
  show ?case
  proof (cases "x = c")
    case True
    then show ?thesis by simp
  next
    case False
    with Cons.prems have in_xs: "c \<in> set xs" by simp
    then have ne: "IndexByte xs c \<noteq> - 1" by (simp add: IndexByte_notin)
    have "- 1 \<le> IndexByte xs c" by (rule IndexByte_ge)
    with ne have "0 \<le> IndexByte xs c" by arith
    then have "nat (IndexByte xs c + 1) = Suc (nat (IndexByte xs c))" by arith
    with False ne Cons.IH[OF in_xs] show ?thesis by (simp add: Let_def)
  qed
qed

lemma getTagTs_True:
  "getTagTs L c mp = (tag, ts, True) \<longleftrightarrow>
     (\<exists>p t. map_of mp ''_path'' = Some (JStr p) \<and> map_of mp ''ts'' = Some (JStr t) \<and>
            time_Parse L t = Some ts \<and> tag = Prefix (CorelightConfig c) @ p)"
  by (auto simp: getTagTs_def split: option.splits jvalue.splits)

lemma process_rewritten:
  assumes "process L c mp og = Some (tag, ts, line)" "tag \<noteq> defaultTag"
  shows "\<exists>headers. mp \<noteq> [] \<and> getTagTs L c mp = (tag, ts, True) \<and>
           tagFields c tag = Some headers \<and> emitLine L ts headers mp = Some (line, True)"
  using assms
  by (auto simp: process_def split: if_splits prod.splits option.splits)

lemma process_success:
  assumes "mp \<noteq> []" "getTagTs L c mp = (tag, ts, True)" "tagFields c tag = Some (h0 # hs)"
  shows "process L c mp og =
           Some (tag, ts, ts_column ts @ concat (map (\<lambda>h. tab # column L mp h) hs))"
  using assms by (simp add: process_def emitLine_Cons)

lemma process_no_panic:
  assumes "\<forall>n. tagFields c n \<noteq> Some []"
  shows "process L c mp og \<noteq> None"
proof (cases "mp = []")
  case True
  then show ?thesis by (simp add: process_def)
next
  case False
  obtain tag ts ok where g: "getTagTs L c mp = (tag, ts, ok)" by (cases "getTagTs L c mp")
  show ?thesis
  proof (cases "ok \<and> tagFields c tag \<noteq> None")
    case False
    with g \<open>mp \<noteq> []\<close> show ?thesis by (auto simp: process_def)
  next
    case True
    then obtain hs where hs: "tagFields c tag = Some hs" and ok: ok by auto
    from hs assms obtain h0 hs' where "hs = h0 # hs'" by (cases hs) auto
    with hs ok g \<open>mp \<noteq> []\<close> show ?thesis by (simp add: process_def emitLine_Cons)
  qed
qed

lemma processLine_rewritten:
  assumes "processLine L c s = Some (tag, ts, line)" "tag \<noteq> defaultTag"
  shows "CHR ''{'' \<in> set s \<and>
         (\<exists>mp headers. json_Unmarshal L (dropWhile (\<lambda>b. b \<noteq> CHR ''{'') s) = Some mp \<and> mp \<noteq> [] \<and>
            getTagTs L c mp = (tag, ts, True) \<and> tagFields c tag = Some headers \<and>
            emitLine L ts headers mp = Some (line, True))"
proof -
  from assms have idx: "IndexByte s CHR ''{'' \<noteq> - 1"
    by (auto simp: processLine_def Let_def split: if_splits)
  then have mem: "CHR ''{'' \<in> set s" by (simp add: IndexByte_notin)
  note dr = drop_IndexByte[OF mem]
  from assms idx obtain mp where
    mp: "json_Unmarshal L (dropWhile (\<lambda>b. b \<noteq> CHR ''{'') s) = Some mp"
    and pr: "process L c mp (dropWhile (\<lambda>b. b \<noteq> CHR ''{'') s) = Some (tag, ts, line)"
    by (auto simp: processLine_def Let_def dr split: option.splits)
  from process_rewritten[OF pr assms(2)] mp mem show ?thesis by blast
qed

lemma processLine_success:
  assumes "CHR ''{'' \<in> set s"
    "json_Unmarshal L (dropWhile (\<lambda>b. b \<noteq> CHR ''{'') s) = Some mp" "mp \<noteq> []"
    "getTagTs L c mp = (tag, ts, True)" "tagFields c tag = Some (h0 # hs)"
  shows "processLine L c s =
           Some (tag, ts, ts_column ts @ concat (map (\<lambda>h. tab # column L mp h) hs))"
proof -
  from assms(1) have idx: "IndexByte s CHR ''{'' \<noteq> - 1" by (simp add: IndexByte_notin)
  note dr = drop_IndexByte[OF assms(1)]
  show ?thesis
    using idx assms(2) process_success[OF assms(3,4,5)]
    by (simp add: processLine_def Let_def dr)
qed

lemma processLine_no_panic:
  assumes "\<forall>n. tagFields c n \<noteq> Some []"
  shows "processLine L c s \<noteq> None"
  using process_no_panic[OF assms]
  by (auto simp: processLine_def Let_def split: option.splits)

lemma failure_processLine:
  assumes "failure_condition L c d" "d \<noteq> []"
  shows "\<exists>ts line. processLine L c d = Some (defaultTag, ts, line)"
proof (rule ccontr)
  assume neg: "\<not> (\<exists>ts line. processLine L c d = Some (defaultTag, ts, line))"
  have contra: False
    if mem: "CHR ''{'' \<in> set d"
      and mp: "json_Unmarshal L (dropWhile (\<lambda>b. b \<noteq> CHR ''{'') d) = Some mp"
      and ne: "mp \<noteq> []"
      and g: "getTagTs L c mp = (tag, ts, True)"
      and hs: "tagFields c tag = Some headers"
      and em: "emitLine L ts headers mp = None \<or> emitLine L ts headers mp = Some (line, True)"
    for mp tag ts headers line
  proof -
    from g obtain p t where pt: "map_of mp ''_path'' = Some (JStr p)"
      "map_of mp ''ts'' = Some (JStr t)" "time_Parse L t = Some ts"
      "tag = Prefix (CorelightConfig c) @ p"
      unfolding getTagTs_True by blast
    from hs pt(4) have hs': "tagFields c (Prefix (CorelightConfig c) @ p) = Some headers" by simp
    from em assms show False
      by (auto simp: failure_condition_def mem mp ne pt(1,2,3) hs')
  qed
  show False
  proof (cases "processLine L c d")
    case None
    then have idx: "IndexByte d CHR ''{'' \<noteq> - 1"
      by (auto simp: processLine_def Let_def split: if_splits)
    then have mem: "CHR ''{'' \<in> set d" by (simp add: IndexByte_notin)
    note dr = drop_IndexByte[OF mem]
    from None idx obtain mp where
      mp: "json_Unmarshal L (dropWhile (\<lambda>b. b \<noteq> CHR ''{'') d) = Some mp"
      and pr: "process L c mp (dropWhile (\<lambda>b. b \<noteq> CHR ''{'') d) = None"
      by (auto simp: processLine_def Let_def dr split: option.splits)
    from pr obtain tag ts headers where "mp \<noteq> []" "getTagTs L c mp = (tag, ts, True)"
      "tagFields c tag = Some headers" "emitLine L ts headers mp = None"
      by (auto simp: process_def split: if_splits prod.splits option.splits)
    with mem mp show False using contra by blast
  next
    case (Some r)
    obtain tag ts line where r: "r = (tag, ts, line)" by (cases r)
    with Some neg have "tag \<noteq> defaultTag" by auto
    from processLine_rewritten[OF Some[unfolded r] this]
    show False using contra by blast
  qed
qed

lemma Process_ent_failure:
  assumes "failure_condition L c (Data (h a))"
  shows "Process_ent L c (Some a) h = Some h"
proof (cases "Data (h a) = []")
  case True
  then show ?thesis by (simp add: Process_ent_def)
next
  case False
  from failure_processLine[OF assms False] obtain ts line where
    "processLine L c (Data (h a)) = Some (defaultTag, ts, line)" by blast
  with False show ?thesis by (simp add: Process_ent_def)
qed

lemma Process_ent_cases:
  assumes "Process_ent L c (Some a) h = Some h'"
  shows "h' = h \<or>
         (\<exists>tag ts line tv. Data (h a) \<noteq> [] \<and> processLine L c (Data (h a)) = Some (tag, ts, line) \<and>
            tag \<noteq> defaultTag \<and> tags c tag = Some tv \<and>
            h' = h(a := (h a)\<lparr>Tag := tv, TS := FromStandard L ts, Data := line\<rparr>))"
  using assms
  by (auto simp: Process_ent_def split: if_splits option.splits prod.splits)

lemma Process_ent_other:
  assumes "Process_ent L c ent h = Some h'" "ent \<noteq> Some b"
  shows "h' b = h b"
proof (cases ent)
  case None
  with assms show ?thesis by (simp add: Process_ent_def)
next
  case (Some a)
  with assms(2) have "a \<noteq> b" by simp
  from Process_ent_cases[OF assms(1)[unfolded Some]] this show ?thesis by auto
qed

lemma Process_ent_success:
  assumes "Data (h a) \<noteq> []" "processLine L c (Data (h a)) = Some (tag, ts, line)"
    "tag \<noteq> defaultTag" "tags c tag = Some tv"
  shows "Process_ent L c (Some a) h =
           Some (h(a := (h a)\<lparr>Tag := tv, TS := FromStandard L ts, Data := line\<rparr>))"
  using assms by (simp add: Process_ent_def)

lemma Process_ent_no_panic:
  assumes "initialized c"
  shows "Process_ent L c ent h \<noteq> None"
proof (cases ent)
  case None
  then show ?thesis by (simp add: Process_ent_def)
next
  case (Some a)
  from assms have "\<forall>n. tagFields c n \<noteq> Some []" by (simp add: initialized_def)
  then have "processLine L c (Data (h a)) \<noteq> None" by (rule processLine_no_panic)
  with Some show ?thesis
    by (auto simp: Process_ent_def split: option.splits)
qed

lemma Process_loop_no_panic:
  assumes "initialized c"
  shows "\<exists>h'. Process_loop L c ents h = Some h'"
proof (induction ents arbitrary: h)
  case Nil
  show ?case by simp
next
  case (Cons ent ents)
  from Process_ent_no_panic[OF assms] obtain h1 where "Process_ent L c ent h = Some h1"
    by blast
  with Cons show ?case by simp
qed

lemma Process_loop_append:
  "Process_loop L c (xs @ ys) h =
     (case Process_loop L c xs h of None \<Rightarrow> None | Some h1 \<Rightarrow> Process_loop L c ys h1)"
  by (induction xs arbitrary: h) (auto split: option.splits)

lemma Process_loop_other:
  assumes "Process_loop L c ents h = Some h'" "Some b \<notin> set ents"
  shows "h' b = h b"
  using assms
proof (induction ents arbitrary: h)
  case Nil
  then show ?case by simp
next
  case (Cons ent ents)
  from Cons.prems(1) obtain h1 where s1: "Process_ent L c ent h = Some h1"
    and s2: "Process_loop L c ents h1 = Some h'"
    by (auto split: option.splits)
  from Cons.prems(2) have "ent \<noteq> Some b" "Some b \<notin> set ents" by auto
  with Cons.IH[OF s2] Process_ent_other[OF s1] show ?case by simp
qed

lemma Process_loop_skip:
  assumes "failure_condition L c (Data (h a))"
  shows "Process_loop L c ents h = Process_loop L c (filter (\<lambda>e. e \<noteq> Some a) ents) h"
  using assms
proof (induction ents arbitrary: h)
  case Nil
  show ?case by simp
next
  case (Cons ent ents)
  show ?case
  proof (cases "ent = Some a")
    case True
    have "Process_ent L c (Some a) h = Some h"
      using Cons.prems by (rule Process_ent_failure)
    with True Cons.IH[of h, OF Cons.prems] show ?thesis by simp
  next
    case False
    show ?thesis
    proof (cases "Process_ent L c ent h")
      case None
      with False show ?thesis by simp
    next
      case (Some h1)
      from Process_ent_other[OF Some False] Cons.prems
      have "failure_condition L c (Data (h1 a))" by simp
      from Cons.IH[of h1, OF this] Some False show ?thesis by simp
    qed
  qed
qed

lemma Process_loop_failure:
  assumes "Process_loop L c ents h = Some h'" "failure_condition L c (Data (h a))"
  shows "h' a = h a"
proof -
  from assms Process_loop_skip[where h=h and a=a and ents=ents, OF assms(2)]
  have "Process_loop L c (filter (\<lambda>e. e \<noteq> Some a) ents) h = Some h'" by simp
  moreover have "Some a \<notin> set (filter (\<lambda>e. e \<noteq> Some a) ents)" by simp
  ultimately show ?thesis by (rule Process_loop_other)
qed

lemma Process_eq:
  "Process L c ents h =
     (case Process_loop L c ents h of None \<Rightarrow> None | Some h' \<Rightarrow> Some (ents, None, h'))"
  by (cases "ents = []") (simp_all add: Process_def)

lemma NewCorelight_succeeds:
  assumes "\<forall>kv \<in> set kvs. \<exists>tv. tagger (effective_prefix cfg @ fst kv) = Inr tv"
  shows "\<exists>c. NewCorelight cfg tagger kvs = Inr c"
proof (cases "NewCorelight cfg tagger kvs")
  case (Inl e)
  from NewCorelight_Inl[OF Inl] assms show ?thesis by auto
next
  case (Inr c)
  then show ?thesis by blast
qed

lemma NewCorelight_c_ex: "NewCorelight cfg_ex tagger_ex tagHeaders = Inr c_ex"
proof -
  have "\<exists>c. NewCorelight cfg_ex tagger_ex tagHeaders = Inr c"
    by (rule NewCorelight_succeeds) (simp add: tagger_ex_def)
  then show ?thesis by (auto simp: c_ex_def)
qed

lemma effective_prefix_ex: "effective_prefix cfg_ex = ''zeek''"
  by (simp add: effective_prefix_def cfg_ex_def defaultPrefix_def)

lemma c_ex_prefix: "Prefix (CorelightConfig c_ex) = ''zeek''"
  using NewCorelight_Inr(1)[OF NewCorelight_c_ex] by (simp add: effective_prefix_ex)

lemma c_ex_fields:
  assumes "(k, v) \<in> set tagHeaders"
  shows "tagFields c_ex (''zeek'' @ k) = Some (Split v CHR '','')"
  using NewCorelight_Inr(7)[OF NewCorelight_c_ex distinct_tagHeaders_keys assms]
  by (simp add: effective_prefix_ex)

lemma c_ex_tags:
  assumes "(k, v) \<in> set tagHeaders"
  shows "tags c_ex (''zeek'' @ k) = Some (4 + length k)"
proof -
  from NewCorelight_Inr(5)[OF NewCorelight_c_ex] assms
  obtain tv where "tagger_ex (effective_prefix cfg_ex @ k) = Inr tv"
    "tags c_ex (effective_prefix cfg_ex @ k) = Some tv" by force
  then show ?thesis by (simp add: effective_prefix_ex tagger_ex_def)
qed

lemma conn_in: "(''conn'', ''ts,uid,id.orig_h,id.orig_p,id.resp_h,id.resp_p,proto,service,duration,id.orig_ip_bytes,id.resp_ip_bytes,conn_state,local_orig,local_resp,missed_bytes,history,id.orig_pkts,id.orig_ip_bytes,id.resp_pkts,id.resp_ip_bytes,tunnel_parents,vlan'') \<in> set tagHeaders"
  by (simp add: tagHeaders_def)

lemma conn_fields: "tagFields c_ex ''zeekconn'' = Some [''ts'', ''uid'', ''id.orig_h'', ''id.orig_p'', ''id.resp_h'', ''id.resp_p'', ''proto'', ''service'', ''duration'', ''id.orig_ip_bytes'', ''id.resp_ip_bytes'', ''conn_state'', ''local_orig'', ''local_resp'', ''missed_bytes'', ''history'', ''id.orig_pkts'', ''id.orig_ip_bytes'', ''id.resp_pkts'', ''id.resp_ip_bytes'', ''tunnel_parents'', ''vlan'']"
  using c_ex_fields[OF conn_in] by simp

lemma conn_tag: "tags c_ex ''zeekconn'' = Some 8"
  using c_ex_tags[OF conn_in] by simp

lemma ts_column_ex: "ts_column ts_value = ''1609459200.000000''"
  unfolding ts_value_def by code_simp

lemma processLine_conn:
  "processLine L_ex c_ex conn_payload =
     Some (''zeekconn'', ts_value,
       ''1609459200.000000'' @ [tab] @ ''abc'' @ [tab] @ ''1.2.3.4'' @
       concat (replicate 19 (tab # ''-'')))"
proof -
  have mem: "CHR ''{'' \<in> set conn_payload" by (simp add: conn_payload_def)
  have dw: "dropWhile (\<lambda>b. b \<noteq> CHR ''{'') conn_payload = conn_payload"
    by (simp add: conn_payload_def)
  have js: "json_Unmarshal L_ex (dropWhile (\<lambda>b. b \<noteq> CHR ''{'') conn_payload) = Some conn_object"
    by (simp add: dw L_ex_def json_ex_def)
  have ne: "conn_object \<noteq> []" by (simp add: conn_object_def)
  have g: "getTagTs L_ex c_ex conn_object = (''zeekconn'', ts_value, True)"
    by (simp add: getTagTs_def conn_object_def L_ex_def time_ex_def c_ex_prefix)
  show ?thesis
    unfolding processLine_success[OF mem js ne g conn_fields]
    by (simp add: ts_column_ex column_def conn_object_def fmt_v_def numeral_eq_Suc)
qed





lemma fmt_f_chars:
  assumes "c \<in> set (fmt_f p x)"
  shows "c = CHR ''-'' \<or> c = CHR ''.'' \<or> is_digit c"
proof -
  define m where "m = round_even (\<bar>x\<bar> * 10 ^ p)"
  from assms have "c = CHR ''-'' \<or> c = CHR ''.'' \<or> c \<in> set (dec (m div 10 ^ p))
      \<or> c \<in> set (padl p (dec (m mod 10 ^ p)))"
    by (auto simp: fmt_f_def Let_def m_def split: if_splits)
  with dec_digits[of "m div 10 ^ p"] padl_digits[OF dec_digits, of p "m mod 10 ^ p"]
  show ?thesis by blast
qed





lemma initialized_tag_found:
  assumes "initialized c" "tagFields c tag = Some headers"
  shows "\<exists>tv. tags c tag = Some tv"
proof -
  from assms(2) have "tag \<in> dom (tagFields c)" by blast
  with assms(1) have "tag \<in> dom (tags c)" by (simp add: initialized_def)
  then show ?thesis by blast
qed

lemma initialized_tag_nonempty:
  assumes "initialized c" "getTagTs L c mp = (tag, ts, True)"
  shows "tag \<noteq> defaultTag"
proof -
  from assms(2) obtain p where "tag = Prefix (CorelightConfig c) @ p"
    unfolding getTagTs_True by blast
  with assms(1) show ?thesis by (simp add: initialized_def defaultTag_def)
qed

lemma Process_ent_rewrites:
  assumes "initialized c" "Data (h a) \<noteq> []" "CHR ''{'' \<in> set (Data (h a))"
    "json_Unmarshal L (dropWhile (\<lambda>b. b \<noteq> CHR ''{'') (Data (h a))) = Some mp" "mp \<noteq> []"
    "getTagTs L c mp = (tag, ts, True)" "tagFields c tag = Some headers"
  shows "\<exists>h0 hs tv. headers = h0 # hs \<and> tags c tag = Some tv \<and>
           Process_ent L c (Some a) h =
             Some (h(a := (h a)\<lparr>Tag := tv, TS := FromStandard L ts,
                      Data := ts_column ts @ concat (map (\<lambda>f. tab # column L mp f) hs)\<rparr>))"
proof -
  from assms(1,7) obtain h0 hs where hd: "headers = h0 # hs"
    by (cases headers) (auto simp: initialized_def)
  from initialized_tag_found[OF assms(1,7)] obtain tv where tv: "tags c tag = Some tv" by blast
  note ne = initialized_tag_nonempty[OF assms(1,6)]
  note pl = processLine_success[OF assms(3,4,5,6) assms(7)[unfolded hd]]
  from Process_ent_success[where h=h and a=a, OF assms(2) pl ne tv] hd tv show ?thesis by blast
qed

lemma Process_ent_conn: "Process_ent L_ex c_ex (Some 0) h_ex = Some h1_ex"
proof -
  have d: "Data (h_ex 0) = conn_payload" by (simp add: h_ex_def)
  have ne: "Data (h_ex 0) \<noteq> []" by (simp add: d conn_payload_def)
  have t: "''zeekconn'' \<noteq> defaultTag" by (simp add: defaultTag_def)
  have "Process_ent L_ex c_ex (Some 0) h_ex =
     Some (h_ex(0 := (h_ex 0)\<lparr>Tag := 8, TS := FromStandard L_ex ts_value, Data := conn_line\<rparr>))"
    by (rule Process_ent_success[where h=h_ex and a=0, OF ne _ t conn_tag])
       (simp add: d processLine_conn conn_line_def)
  then show ?thesis by (simp add: h1_ex_def h_ex_def L_ex_def)
qed

lemma failure_no_json: "failure_condition L c ''no json here''"
  by (simp add: failure_condition_def)

lemma Process_ent_no_json: "Process_ent L_ex c_ex (Some 1) h1_ex = Some h1_ex"
proof -
  have "failure_condition L_ex c_ex (Data (h1_ex 1))"
    by (simp add: h1_ex_def h_ex_def failure_no_json)
  then show ?thesis by (rule Process_ent_failure)
qed

lemma Process_ent_nil: "Process_ent L c None h = Some h"
  by (simp add: Process_ent_def)

lemma Process_loop_ex: "Process_loop L_ex c_ex [Some 0, Some 1, None] h_ex = Some h1_ex"
  by (simp only: Process_loop.simps Process_ent_conn Process_ent_no_json Process_ent_nil
        option.case)

lemma Process_ex:
  "Process L_ex c_ex [Some 0, Some 1, None] h_ex = Some ([Some 0, Some 1, None], None, h1_ex)"
  by (simp only: Process_eq Process_loop_ex option.case)

section \<open>The claims\<close>



text \<open>
  C10. \<^verbatim>\<open>emitLine\<close> returns a line and \<open>true\<close> for every non-empty field list,
  and never returns \<open>false\<close>, so the branch of \<^verbatim>\<open>process\<close> for a failed
  emission is never taken. For a processor made by \<^verbatim>\<open>NewCorelight\<close>, every
  record whose payload decodes to a non-empty map that passes \<^verbatim>\<open>getTagTs\<close> and
  whose tag has a field list is rewritten by \<^verbatim>\<open>Process\<close>.
\<close>

theorem emitLine_never_fails:
  "(headers \<noteq> [] \<longrightarrow> (\<exists>line. emitLine L ts headers mp = Some (line, True))) \<and>
   emitLine L ts headers mp \<noteq> Some (line', False) \<and>
   (NewCorelight cfg tagger kvs = Inr c \<and> Data (h a) \<noteq> [] \<and> CHR ''{'' \<in> set (Data (h a)) \<and>
    json_Unmarshal L (drop (nat (IndexByte (Data (h a)) CHR ''{'')) (Data (h a))) = Some mp \<and>
    mp \<noteq> [] \<and> getTagTs L c mp = (tag, ts, True) \<and> tagFields c tag = Some headers \<longrightarrow>
    (\<exists>line tv. emitLine L ts headers mp = Some (line, True) \<and> tags c tag = Some tv \<and>
       Process_ent L c (Some a) h =
         Some (h(a := (h a)\<lparr>Tag := tv, TS := FromStandard L ts, Data := line\<rparr>))))"
proof -
  have 1: "headers \<noteq> [] \<longrightarrow> (\<exists>line. emitLine L ts headers mp = Some (line, True))"
    by (cases headers) (simp_all add: emitLine_Cons)
  have 2: "emitLine L ts headers mp \<noteq> Some (line', False)"
    by (cases headers) (simp_all add: emitLine_Cons emitLine_def)
  have 3: "\<exists>line tv. emitLine L ts headers mp = Some (line, True) \<and> tags c tag = Some tv \<and>
       Process_ent L c (Some a) h =
         Some (h(a := (h a)\<lparr>Tag := tv, TS := FromStandard L ts, Data := line\<rparr>))"
    if new: "NewCorelight cfg tagger kvs = Inr c" and ne: "Data (h a) \<noteq> []"
      and mem: "CHR ''{'' \<in> set (Data (h a))"
      and js: "json_Unmarshal L (drop (nat (IndexByte (Data (h a)) CHR ''{'')) (Data (h a))) = Some mp"
      and mp: "mp \<noteq> []" and g: "getTagTs L c mp = (tag, ts, True)"
      and hs: "tagFields c tag = Some headers"
  proof -
    note init = NewCorelight_initialized[OF new]
    from js have js': "json_Unmarshal L (dropWhile (\<lambda>b. b \<noteq> CHR ''{'') (Data (h a))) = Some mp"
      by (simp add: drop_IndexByte[OF mem])
    from Process_ent_rewrites[where h=h and a=a, OF init ne mem js' mp g hs]
    obtain h0 hs' tv where "headers = h0 # hs'" "tags c tag = Some tv"
      "Process_ent L c (Some a) h =
         Some (h(a := (h a)\<lparr>Tag := tv, TS := FromStandard L ts,
                  Data := ts_column ts @ concat (map (\<lambda>f. tab # column L mp f) hs')\<rparr>))"
      by blast
    then show ?thesis by (auto simp: emitLine_Cons)
  qed
  from 1 2 3 show ?thesis by blast
qed

text \<open>The record of the scenario of the specification is rewritten.\<close>

theorem emitLine_never_fails_witness:
  "emitLine L_ex ts_value (the (tagFields c_ex ''zeekconn'')) conn_object = Some (conn_line, True) \<and>
   Process_ent L_ex c_ex (Some 0) h_ex =
     Some (h_ex(0 := (h_ex 0)\<lparr>Tag := 8, TS := ts_value, Data := conn_line\<rparr>))"
proof -
  have d: "Data (h_ex 0) = conn_payload" by (simp add: h_ex_def)
  have ne: "Data (h_ex 0) \<noteq> []" by (simp add: d conn_payload_def)
  have mem: "CHR ''{'' \<in> set (Data (h_ex 0))" by (simp add: d conn_payload_def)
  have js: "json_Unmarshal L_ex (drop (nat (IndexByte (Data (h_ex 0)) CHR ''{'')) (Data (h_ex 0)))
      = Some conn_object"
    by (simp add: d L_ex_def json_ex_def) (simp add: conn_payload_def)
  have mp: "conn_object \<noteq> []" by (simp add: conn_object_def)
  have g: "getTagTs L_ex c_ex conn_object = (''zeekconn'', ts_value, True)"
    by (simp add: getTagTs_def conn_object_def L_ex_def time_ex_def c_ex_prefix)
  have hne: "the (tagFields c_ex ''zeekconn'') \<noteq> []" by (simp add: conn_fields)
  have hs: "tagFields c_ex ''zeekconn'' = Some (the (tagFields c_ex ''zeekconn''))"
    by (simp add: conn_fields)
  from emitLine_never_fails[of "the (tagFields c_ex ''zeekconn'')" L_ex ts_value conn_object
      "[]" cfg_ex tagger_ex tagHeaders c_ex h_ex 0 "''zeekconn''"]
    NewCorelight_c_ex ne mem js mp g hs hne
  obtain line tv where r:
    "emitLine L_ex ts_value (the (tagFields c_ex ''zeekconn'')) conn_object = Some (line, True)"
    "tags c_ex ''zeekconn'' = Some tv"
    "Process_ent L_ex c_ex (Some 0) h_ex =
       Some (h_ex(0 := (h_ex 0)\<lparr>Tag := tv, TS := FromStandard L_ex ts_value, Data := line\<rparr>))"
    by blast
  from r(2) have tv: "tv = 8" by (simp add: conn_tag)
  have "emitLine L_ex ts_value (the (tagFields c_ex ''zeekconn'')) conn_object = Some (conn_line, True)"
    by (simp add: conn_fields emitLine_Cons ts_column_ex column_def conn_object_def fmt_v_def
        conn_line_def numeral_eq_Suc)
  with r(1) have line: "line = conn_line" by simp
  from r(3) tv line have "Process_ent L_ex c_ex (Some 0) h_ex =
     Some (h_ex(0 := (h_ex 0)\<lparr>Tag := 8, TS := ts_value, Data := conn_line\<rparr>))"
    by (simp add: L_ex_def)
  with \<open>emitLine L_ex ts_value (the (tagFields c_ex ''zeekconn'')) conn_object = Some (conn_line, True)\<close>
  show ?thesis by blast
qed

text \<open>
  C4. One iteration of the loop of \<^verbatim>\<open>Process\<close> either leaves the store as it is,
  or writes to the record all three of: the tag identifier found for the tag of
  \<^verbatim>\<open>processLine\<close>, the timestamp parsed from \<open>ts\<close>, and the emitted line. No other
  record is written, and a \<^verbatim>\<open>nil\<close> entry changes nothing.
\<close>

theorem rewrite_all_or_nothing:
  "Process_ent L c None h = Some h \<and>
   (Process_ent L c (Some a) h = Some h' \<longrightarrow>
      (h' = h \<or>
       (\<exists>tag ts line tv mp headers.
          json_Unmarshal L (dropWhile (\<lambda>b. b \<noteq> CHR ''{'') (Data (h a))) = Some mp \<and>
          getTagTs L c mp = (tag, ts, True) \<and> tagFields c tag = Some headers \<and>
          emitLine L ts headers mp = Some (line, True) \<and> tags c tag = Some tv \<and>
          h' = h(a := (h a)\<lparr>Tag := tv, TS := FromStandard L ts, Data := line\<rparr>))) \<and>
      (\<forall>b. b \<noteq> a \<longrightarrow> h' b = h b))"
proof -
  have 1: "Process_ent L c None h = Some h" by (rule Process_ent_nil)
  have 2: "(h' = h \<or>
       (\<exists>tag ts line tv mp headers.
          json_Unmarshal L (dropWhile (\<lambda>b. b \<noteq> CHR ''{'') (Data (h a))) = Some mp \<and>
          getTagTs L c mp = (tag, ts, True) \<and> tagFields c tag = Some headers \<and>
          emitLine L ts headers mp = Some (line, True) \<and> tags c tag = Some tv \<and>
          h' = h(a := (h a)\<lparr>Tag := tv, TS := FromStandard L ts, Data := line\<rparr>))) \<and>
      (\<forall>b. b \<noteq> a \<longrightarrow> h' b = h b)"
    if run: "Process_ent L c (Some a) h = Some h'"
  proof -
    have other: "\<forall>b. b \<noteq> a \<longrightarrow> h' b = h b"
      using Process_ent_other[OF run] by auto
    from Process_ent_cases[OF run] show ?thesis
    proof
      assume "h' = h"
      with other show ?thesis by blast
    next
      assume "\<exists>tag ts line tv. Data (h a) \<noteq> [] \<and>
          processLine L c (Data (h a)) = Some (tag, ts, line) \<and>
          tag \<noteq> defaultTag \<and> tags c tag = Some tv \<and>
          h' = h(a := (h a)\<lparr>Tag := tv, TS := FromStandard L ts, Data := line\<rparr>)"
      then obtain tag ts line tv where pl: "processLine L c (Data (h a)) = Some (tag, ts, line)"
        and ne: "tag \<noteq> defaultTag" and tv: "tags c tag = Some tv"
        and h': "h' = h(a := (h a)\<lparr>Tag := tv, TS := FromStandard L ts, Data := line\<rparr>)"
        by blast
      from processLine_rewritten[OF pl ne] tv h' other show ?thesis by blast
    qed
  qed
  from 1 2 show ?thesis by blast
qed

text \<open>The rewritten record of the scenario: all three fields are new.\<close>

theorem rewrite_all_or_nothing_witness:
  "Process_ent L_ex c_ex (Some 0) h_ex = Some h1_ex \<and>
   h1_ex 0 = \<lparr>TS = ts_value, Tag = 8, Data = conn_line\<rparr> \<and>
   h1_ex 1 = h_ex 1"
  using rewrite_all_or_nothing[of L_ex c_ex h_ex 0 h1_ex] Process_ent_conn
  by (simp add: h1_ex_def)

text \<open>
  C5. \<^verbatim>\<open>Process\<close> returns an empty batch at once and unchanged. For a processor
  made by \<^verbatim>\<open>NewCorelight\<close> it returns, for every batch, the same slice (the same
  pointers in the same order) and no error; it writes to no record outside the batch;
  and it handles the records from left to right: the store after a batch is the store
  after its second part, run on the store after its first part.
\<close>

theorem Process_preserves_batch:
  "Process L c [] h = Some ([], None, h) \<and>
   (NewCorelight cfg tagger kvs = Inr c \<longrightarrow>
      (\<exists>h'. Process L c ents h = Some (ents, None, h') \<and>
            (\<forall>b. Some b \<notin> set ents \<longrightarrow> h' b = h b) \<and>
            (\<forall>xs ys. ents = xs @ ys \<longrightarrow>
               (\<exists>h1. Process_loop L c xs h = Some h1 \<and> Process_loop L c ys h1 = Some h'))))"
proof -
  have 1: "Process L c [] h = Some ([], None, h)" by (simp add: Process_def)
  have 2: "\<exists>h'. Process L c ents h = Some (ents, None, h') \<and>
            (\<forall>b. Some b \<notin> set ents \<longrightarrow> h' b = h b) \<and>
            (\<forall>xs ys. ents = xs @ ys \<longrightarrow>
               (\<exists>h1. Process_loop L c xs h = Some h1 \<and> Process_loop L c ys h1 = Some h'))"
    if new: "NewCorelight cfg tagger kvs = Inr c"
  proof -
    note init = NewCorelight_initialized[OF new]
    from Process_loop_no_panic[OF init] obtain h' where run: "Process_loop L c ents h = Some h'"
      by blast
    have a: "Process L c ents h = Some (ents, None, h')" by (simp add: Process_eq run)
    have b: "\<forall>b. Some b \<notin> set ents \<longrightarrow> h' b = h b"
      using Process_loop_other[OF run] by blast
    have c: "\<forall>xs ys. ents = xs @ ys \<longrightarrow>
               (\<exists>h1. Process_loop L c xs h = Some h1 \<and> Process_loop L c ys h1 = Some h')"
    proof (intro allI impI)
      fix xs ys assume e: "ents = xs @ ys"
      from Process_loop_no_panic[OF init] obtain h1 where h1: "Process_loop L c xs h = Some h1"
        by blast
      with run e have "Process_loop L c ys h1 = Some h'" by (simp add: Process_loop_append)
      with h1 show "\<exists>h1. Process_loop L c xs h = Some h1 \<and> Process_loop L c ys h1 = Some h'"
        by blast
    qed
    from a b c show ?thesis by blast
  qed
  from 1 2 show ?thesis by blast
qed

text \<open>A batch of a convertible record, a record without JSON and a \<^verbatim>\<open>nil\<close> entry.\<close>

theorem Process_preserves_batch_witness:
  "Process L_ex c_ex [Some 0, Some 1, None] h_ex = Some ([Some 0, Some 1, None], None, h1_ex) \<and>
   h1_ex 5 = h_ex 5"
proof -
  from Process_preserves_batch[of L_ex c_ex h_ex cfg_ex tagger_ex tagHeaders "[Some 0, Some 1, None]"]
    NewCorelight_c_ex
  obtain h' where "Process L_ex c_ex [Some 0, Some 1, None] h_ex = Some ([Some 0, Some 1, None], None, h')"
    "\<forall>b. Some b \<notin> set [Some 0, Some 1, None] \<longrightarrow> h' b = h_ex b"
    by blast
  moreover from this(1) have "h' = h1_ex" by (simp only: Process_ex option.inject prod.inject)
  ultimately show ?thesis by auto
qed

text \<open>
  C1. A record whose payload meets one of the failure conditions (it is empty, it has no
  \<open>{\<close> byte, its part from the first \<open>{\<close> does not decode or decodes to an empty
  map, \<open>_path\<close> or \<open>ts\<close> is missing or not a string, \<open>ts\<close> does not parse, the tag
  has no field list, or the emission fails) is left as it is by its iteration of
  \<^verbatim>\<open>Process\<close>. For a processor made by \<^verbatim>\<open>NewCorelight\<close> the call on a batch
  returns the batch and no error, leaves that record as it was, and handles the other
  records as if the failing record were not in the batch.
\<close>

theorem failed_records_pass_through:
  assumes "failure_condition L c (Data (h a))"
  shows "Process_ent L c (Some a) h = Some h \<and>
         (NewCorelight cfg tagger kvs = Inr c \<longrightarrow>
            (\<exists>h'. Process L c ents h = Some (ents, None, h') \<and> h' a = h a \<and>
                  Process_loop L c (filter (\<lambda>e. e \<noteq> Some a) ents) h = Some h'))"
proof -
  have 1: "Process_ent L c (Some a) h = Some h"
    using assms by (rule Process_ent_failure)
  have 2: "\<exists>h'. Process L c ents h = Some (ents, None, h') \<and> h' a = h a \<and>
                  Process_loop L c (filter (\<lambda>e. e \<noteq> Some a) ents) h = Some h'"
    if new: "NewCorelight cfg tagger kvs = Inr c"
  proof -
    note init = NewCorelight_initialized[OF new]
    from Process_loop_no_panic[OF init] obtain h' where run: "Process_loop L c ents h = Some h'"
      by blast
    have a: "Process L c ents h = Some (ents, None, h')" by (simp add: Process_eq run)
    have b: "h' a = h a" using run assms by (rule Process_loop_failure)
    have c: "Process_loop L c (filter (\<lambda>e. e \<noteq> Some a) ents) h = Some h'"
      using Process_loop_skip[where h=h and a=a and ents=ents, OF assms] run by simp
    from a b c show ?thesis by blast
  qed
  from 1 2 show ?thesis by blast
qed

text \<open>The record without JSON of the batch above stays as it was.\<close>

theorem failed_records_pass_through_witness:
  "failure_condition L_ex c_ex (Data (h_ex 1)) \<and>
   Process L_ex c_ex [Some 0, Some 1, None] h_ex = Some ([Some 0, Some 1, None], None, h1_ex) \<and>
   h1_ex 1 = h_ex 1 \<and>
   Process_loop L_ex c_ex [Some 0, None] h_ex = Some h1_ex"
proof -
  have f: "failure_condition L_ex c_ex (Data (h_ex 1))"
    by (simp add: h_ex_def failure_no_json)
  from failed_records_pass_through[where h=h_ex and a=1 and cfg=cfg_ex and tagger=tagger_ex
      and kvs=tagHeaders and ents="[Some 0, Some 1, None]", OF f]
    NewCorelight_c_ex
  obtain h' where r: "Process L_ex c_ex [Some 0, Some 1, None] h_ex = Some ([Some 0, Some 1, None], None, h')"
    "h' 1 = h_ex 1"
    "Process_loop L_ex c_ex (filter (\<lambda>e. e \<noteq> Some 1) [Some 0, Some 1, None]) h_ex = Some h'"
    by blast
  from r(1) have e: "h' = h1_ex" by (simp only: Process_ex option.inject prod.inject)
  have "filter (\<lambda>e. e \<noteq> Some (1::nat)) [Some 0, Some 1, None] = [Some 0, None]" by simp
  with r(2,3) e have "h1_ex 1 = h_ex 1" "Process_loop L_ex c_ex [Some 0, None] h_ex = Some h1_ex"
    by simp_all
  with f Process_ex show ?thesis by blast
qed

end
